theory Spec2Isabelle
  imports Main
begin

section \<open>The service-worker precache plugin (src/index.js)\<close>

text \<open>
  The plugin is one JavaScript class. Its state is three option objects (\<open>config\<close>,
  \<open>options\<close>, \<open>overrides\<close>) and a list of warnings. The option objects are
  modelled by one record with a field per key the source reads or writes; a field is
  \<open>None\<close> when the object has no such key, and \<open>passthrough\<close> holds every other
  key, which only the generator reads. Values carry the types the constructor's
  documentation gives them, so an ill-typed option (or a key set to \<open>undefined\<close>) is
  not an input of the model.
\<close>

subsection \<open>Errors and option objects\<close>

text \<open>
  \<open>TypeError\<close> is what JavaScript raises when the source calls a method of
  \<open>undefined\<close> or hands \<open>undefined\<close> to \<open>path.resolve\<close>. \<open>Failure\<close> is an error of
  a collaborator (generator, minifier, file system), named by its message.
\<close>

datatype error = TypeError | Failure string

text \<open>
  A \<open>RegExp\<close> object. The source uses it only through \<open>regex.test(text)\<close>, which
  reads and writes the property \<open>lastIndex\<close> of the object when the pattern has the
  global or the sticky flag. \<open>ident\<close> says which object it is: the same object may stand
  twice in a list. \<open>exec_from text i\<close> is what the matcher of the pattern finds in
  \<open>text\<close> from the index \<open>i\<close>: the index after the first match that starts at \<open>i\<close> or
  later (for a sticky pattern: at \<open>i\<close>), or nothing. The property \<open>lastIndex\<close> changes,
  so it is kept with the instance, not here.
\<close>

record regex =
  ident :: nat
  exec_from :: "string \<Rightarrow> nat \<Rightarrow> nat option"
  global :: bool
  sticky :: bool

record settings =
  cacheId :: "string option"
  filename :: "string option"
  filepath :: "string option"
  importScripts :: "string list option"
  staticFileGlobsIgnorePatterns :: "regex list option"
  mergeStaticsConfig :: "bool option"
  minify :: "bool option"
  debug :: "bool option"
  forceDelete :: "bool option"
  staticFileGlobs :: "string list option"
  stripPrefixMulti :: "(string \<Rightarrow> string option) option"
  passthrough :: "string \<Rightarrow> string option"

text \<open>The empty object \<open>{}\<close>.\<close>

definition no_settings :: settings where
  "no_settings =
     \<lparr> cacheId = None, filename = None, filepath = None, importScripts = None,
       staticFileGlobsIgnorePatterns = None, mergeStaticsConfig = None, minify = None,
       debug = None, forceDelete = None, staticFileGlobs = None, stripPrefixMulti = None,
       passthrough = Map.empty \<rparr>"

text \<open>Lines 10 to 24: the defaults.\<close>

definition DEFAULT_CACHE_ID :: string where
  "DEFAULT_CACHE_ID = ''sw-precache-webpack-plugin''"

definition DEFAULT_WORKER_FILENAME :: string where
  "DEFAULT_WORKER_FILENAME = ''service-worker.js''"

definition DEFAULT_PUBLIC_PATH :: string where
  "DEFAULT_PUBLIC_PATH = ''''"

definition DEFAULT_IMPORT_SCRIPTS :: "string list" where
  "DEFAULT_IMPORT_SCRIPTS = []"

definition DEFAULT_IGNORE_PATTERNS :: "regex list" where
  "DEFAULT_IGNORE_PATTERNS = []"

definition DEFAULT_OPTIONS :: settings where
  "DEFAULT_OPTIONS =
     no_settings \<lparr> cacheId := Some DEFAULT_CACHE_ID, filename := Some DEFAULT_WORKER_FILENAME,
       importScripts := Some DEFAULT_IMPORT_SCRIPTS,
       staticFileGlobsIgnorePatterns := Some DEFAULT_IGNORE_PATTERNS,
       mergeStaticsConfig := Some False, minify := Some False \<rparr>"

text \<open>Lines 6 and 7: the two advisory messages.\<close>

definition FILEPATH_WARNING :: string where
  "FILEPATH_WARNING = ''sw-prechache-webpack-plugin [filepath]: You are using a custom path for your service worker, this may prevent the service worker from working correctly if it is not available in the same path as your application.''"

definition FORCEDELETE_WARNING :: string where
  "FORCEDELETE_WARNING = ''sw-prechache-webpack-plugin [forceDelete]: You are specifying the option forceDelete. This was removed in v0.10. It should not affect your build but should no longer be required.''"

text \<open>
  Object spread: \<open>{...a, ...b}\<close> has every key of \<open>a\<close> and of \<open>b\<close>, with the value of
  \<open>b\<close> where both have the key.
\<close>

definition orelse :: "'a option \<Rightarrow> 'a option \<Rightarrow> 'a option" where
  "orelse later earlier = (case later of None \<Rightarrow> earlier | Some v \<Rightarrow> Some v)"

definition spread :: "settings \<Rightarrow> settings \<Rightarrow> settings" where
  "spread a b =
     \<lparr> cacheId = orelse (cacheId b) (cacheId a),
       filename = orelse (filename b) (filename a),
       filepath = orelse (filepath b) (filepath a),
       importScripts = orelse (importScripts b) (importScripts a),
       staticFileGlobsIgnorePatterns =
         orelse (staticFileGlobsIgnorePatterns b) (staticFileGlobsIgnorePatterns a),
       mergeStaticsConfig = orelse (mergeStaticsConfig b) (mergeStaticsConfig a),
       minify = orelse (minify b) (minify a),
       debug = orelse (debug b) (debug a),
       forceDelete = orelse (forceDelete b) (forceDelete a),
       staticFileGlobs = orelse (staticFileGlobs b) (staticFileGlobs a),
       stripPrefixMulti = orelse (stripPrefixMulti b) (stripPrefixMulti a),
       passthrough = passthrough a ++ passthrough b \<rparr>"

subsection \<open>The plugin instance\<close>

text \<open>
  Besides the four fields of the class, the instance holds the \<open>lastIndex\<close> of the
  \<open>RegExp\<close> objects its options refer to, by object.
\<close>

record plugin =
  config :: settings
  options :: settings
  overrides :: settings
  warnings :: "string list"
  lastIndex :: "nat \<Rightarrow> nat"

text \<open>
  Lines 42 to 54: the constructor. The patterns it is given are new objects, whose
  \<open>lastIndex\<close> is 0.
\<close>

definition new_plugin :: "settings \<Rightarrow> plugin" where
  "new_plugin user =
     \<lparr> config = no_settings, options = spread DEFAULT_OPTIONS user,
       overrides = no_settings, warnings = [], lastIndex = (\<lambda>object. 0) \<rparr>"

text \<open>Lines 59 to 65: the getter \<open>workerOptions\<close>.\<close>

definition workerOptions :: "plugin \<Rightarrow> settings" where
  "workerOptions p = spread (spread (config p) (options p)) (overrides p)"

subsection \<open>The host and the collaborators\<close>

text \<open>
  What the source takes from Node, from the generator, from the minifier and from the
  host's output file system is a parameter of the model. \<open>generate\<close> gives how the
  generator's promise settles (\<open>Inl\<close>: rejected), \<open>uglify\<close> what the minifier returns for
  a file name and a source (\<open>Inl\<close>: it throws), \<open>mkdirp\<close> and \<open>writeFile\<close> the error
  the file system reports to the operation's callback (\<open>None\<close>: success).
  \<open>fs_async\<close> says when the file system runs a callback: in a later turn of the event
  loop, as Node's file system does, or inside the call, as an in-memory file system may.
\<close>

record env =
  path_resolve :: "string \<Rightarrow> string \<Rightarrow> string"
  path_join :: "string \<Rightarrow> string \<Rightarrow> string"
  path_sep :: string
  url_resolve :: "string \<Rightarrow> string \<Rightarrow> string"
  generate :: "settings \<Rightarrow> error + string"
  uglify :: "string \<Rightarrow> string \<Rightarrow> error + string"
  mkdirp :: "string \<Rightarrow> error option"
  writeFile :: "string \<Rightarrow> string \<Rightarrow> error option"
  fs_async :: bool

text \<open>
  One build: \<open>compiler.outputPath\<close>, \<open>compiler.options.output.publicPath\<close>,
  \<open>Object.keys(compilation.assets)\<close> and \<open>compilation.hash\<close>.
\<close>

record build =
  outputPath :: string
  publicPath :: "string option"
  assets :: "string list"
  hash :: string

subsection \<open>Replacing the hash placeholder\<close>

text \<open>
  Line 132: \<open>f.replace(/\[hash\]/g, compilation.hash)\<close>. The pattern matches the six
  characters of the placeholder, at every place, from left to right. The second
  argument is a replacement pattern: in it \<open>$$\<close> stands for a dollar sign, \<open>$&\<close> for
  the match, a dollar sign and a backquote for the text before the match, a dollar sign
  and a quote for the text after it. The pattern has no group, so a dollar sign before
  a digit stands for itself.
\<close>

definition HASH_TOKEN :: string where
  "HASH_TOKEN = ''[hash]''"

fun get_substitution :: "string \<Rightarrow> string \<Rightarrow> string \<Rightarrow> string \<Rightarrow> string" where
  "get_substitution m pre post [] = []"
| "get_substitution m pre post [c] = [c]"
| "get_substitution m pre post (c # d # r) =
     (if c = CHR ''$'' \<and> d = CHR ''$'' then CHR ''$'' # get_substitution m pre post r
      else if c = CHR ''$'' \<and> d = CHR ''&'' then m @ get_substitution m pre post r
      else if c = CHR ''$'' \<and> d = CHR 0x60 then pre @ get_substitution m pre post r
      else if c = CHR ''$'' \<and> d = CHR 0x27 then post @ get_substitution m pre post r
      else c # get_substitution m pre post (d # r))"

function replace_from :: "string \<Rightarrow> string \<Rightarrow> string \<Rightarrow> string" where
  "replace_from replacement pre [] = []"
| "replace_from replacement pre (c # cs) =
     (if take 6 (c # cs) = HASH_TOKEN
      then get_substitution HASH_TOKEN pre (drop 6 (c # cs)) replacement
           @ replace_from replacement (pre @ HASH_TOKEN) (drop 6 (c # cs))
      else c # replace_from replacement (pre @ [c]) cs)"
  by pat_completeness auto
termination
  by (relation "measure (\<lambda>(r, b, s). length s)") auto

definition replace_hash :: "string \<Rightarrow> string \<Rightarrow> string" where
  "replace_hash h f = replace_from h [] f"

subsection \<open>Configuration (lines 83 to 144)\<close>

text \<open>
  Line 96: the destructuring default is taken only when \<open>options.filepath\<close> is
  \<open>undefined\<close>; \<open>path.resolve\<close> raises a \<open>TypeError\<close> for an argument that is not a
  string.
\<close>

definition resolve_filepath :: "env \<Rightarrow> build \<Rightarrow> settings \<Rightarrow> error + string" where
  "resolve_filepath e b opts =
     (case filepath opts of
        Some fp \<Rightarrow> Inr fp
      | None \<Rightarrow>
          (case filename opts of
             None \<Rightarrow> Inl TypeError
           | Some name \<Rightarrow> Inr (path_resolve e (outputPath b) name)))"

text \<open>
  \<open>regex.test(text)\<close>, as a function of the \<open>lastIndex\<close> of the object: the answer and
  the new \<open>lastIndex\<close>. A pattern with the global or the sticky flag starts at
  \<open>lastIndex\<close>, fails when that is beyond the end of the text, sets \<open>lastIndex\<close> to the
  end of the match when it succeeds and to 0 when it fails. Any other pattern starts at
  0 and leaves \<open>lastIndex\<close> as it is.
\<close>

definition regexp_test :: "regex \<Rightarrow> string \<Rightarrow> nat \<Rightarrow> bool \<times> nat" where
  "regexp_test regex text index =
     (if global regex \<or> sticky regex
      then (if length text < index then (False, 0)
            else (case exec_from regex text index of
                    None \<Rightarrow> (False, 0)
                  | Some end_of_match \<Rightarrow> (True, end_of_match)))
      else (case exec_from regex text 0 of
              None \<Rightarrow> (False, index)
            | Some end_of_match \<Rightarrow> (True, index)))"

text \<open>
  Line 108: \<open>staticFileGlobsIgnorePatterns.some((regex) => regex.test(text))\<close> tests the
  patterns in order and stops at the first that answers true; every test made leaves
  its \<open>lastIndex\<close> behind.
\<close>

fun some_test :: "regex list \<Rightarrow> string \<Rightarrow> (nat \<Rightarrow> nat) \<Rightarrow> bool \<times> (nat \<Rightarrow> nat)" where
  "some_test [] text indexes = (False, indexes)"
| "some_test (regex # patterns) text indexes =
     (case regexp_test regex text (indexes (ident regex)) of
        (matched, index) \<Rightarrow>
          (if matched then (True, indexes (ident regex := index))
           else some_test patterns text (indexes (ident regex := index))))"

text \<open>Lines 107 to 109: the filter keeps the entries for which \<open>some\<close> answers false.\<close>

fun filter_entries ::
  "regex list \<Rightarrow> string list \<Rightarrow> (nat \<Rightarrow> nat) \<Rightarrow> string list \<times> (nat \<Rightarrow> nat)" where
  "filter_entries patterns [] indexes = ([], indexes)"
| "filter_entries patterns (text # entries) indexes =
     (case some_test patterns text indexes of
        (matched, indexes') \<Rightarrow>
          (case filter_entries patterns entries indexes' of
             (kept, indexes'') \<Rightarrow> (if matched then kept else text # kept, indexes'')))"

text \<open>
  The filter calls \<open>staticFileGlobsIgnorePatterns.some\<close> once per entry, so a missing
  pattern list raises as soon as there is an entry.
\<close>

definition filter_globs ::
  "regex list option \<Rightarrow> string list \<Rightarrow> (nat \<Rightarrow> nat) \<Rightarrow> error + string list \<times> (nat \<Rightarrow> nat)" where
  "filter_globs patterns entries indexes =
     (case patterns of
        Some ps \<Rightarrow> Inr (filter_entries ps entries indexes)
      | None \<Rightarrow> (case entries of [] \<Rightarrow> Inr ([], indexes) | _ # _ \<Rightarrow> Inl TypeError))"

definition configure :: "env \<Rightarrow> build \<Rightarrow> plugin \<Rightarrow> error + plugin" where
  "configure e b p =
     (case resolve_filepath e b (options p) of
        Inl err \<Rightarrow> Inl err
      | Inr fp \<Rightarrow>
          (let public = (case publicPath b of None \<Rightarrow> DEFAULT_PUBLIC_PATH | Some q \<Rightarrow> q);
               assetGlobs = map (path_join e (outputPath b)) (assets b);
               entries = assetGlobs @ (case staticFileGlobs (options p) of None \<Rightarrow> [] | Some gs \<Rightarrow> gs)
           in case filter_globs (staticFileGlobsIgnorePatterns (options p)) entries (lastIndex p) of
                Inl err \<Rightarrow> Inl err
              | Inr (globs, indexes) \<Rightarrow>
                  (let user_prefixes =
                         (case stripPrefixMulti (options p) of None \<Rightarrow> Map.empty | Some m \<Rightarrow> m);
                       prefixes =
                         (if outputPath b \<noteq> []
                          then user_prefixes(outputPath b @ path_sep e \<mapsto> public)
                          else user_prefixes);
                       config' = (config p)
                         \<lparr> staticFileGlobs := Some globs, stripPrefixMulti := Some prefixes \<rparr>;
                       with_path = (overrides p) \<lparr> filepath := Some fp \<rparr>;
                       with_scripts =
                         (case importScripts (options p) of
                            None \<Rightarrow> with_path
                          | Some scripts \<Rightarrow> with_path
                              \<lparr> importScripts :=
                                  Some (map (url_resolve e public)
                                         (map (replace_hash (hash b)) scripts)) \<rparr>);
                       overrides' =
                         (if mergeStaticsConfig (options p) = Some True
                          then with_scripts
                            \<lparr> staticFileGlobs := Some globs, stripPrefixMulti := Some prefixes \<rparr>
                          else with_scripts)
                   in Inr (p \<lparr> config := config', overrides := overrides',
                               lastIndex := indexes \<rparr>))))"

subsection \<open>Generation and minification (lines 146 to 157)\<close>

text \<open>
  Lines 148 to 156, the callback of the \<open>then\<close> inside \<open>createServiceWorker\<close>, as a
  function of how the generator's promise settled; the value is how the promise of the
  \<open>then\<close> settles. A rejection is passed on; a minifier that throws rejects. The key
  of \<open>uglifyFiles\<close> is \<open>options.filename\<close>; a missing name becomes the key
  \<open>undefined\<close>.
\<close>

definition minify_callback :: "env \<Rightarrow> plugin \<Rightarrow> error + string \<Rightarrow> error + string" where
  "minify_callback e p settled =
     (case settled of
        Inl err \<Rightarrow> Inl err
      | Inr serviceWorkerFileContents \<Rightarrow>
          (if minify (options p) = Some True
           then uglify e (case filename (options p) of None \<Rightarrow> ''undefined'' | Some name \<Rightarrow> name)
                  serviceWorkerFileContents
           else Inr serviceWorkerFileContents))"

text \<open>How the promise that \<open>createServiceWorker\<close> returns settles.\<close>

definition createServiceWorker :: "env \<Rightarrow> plugin \<Rightarrow> error + string" where
  "createServiceWorker e p = minify_callback e p (generate e (workerOptions p))"

subsection \<open>Warnings (lines 172 to 186)\<close>

text \<open>
  The first component is the plugin with its warnings, the second is
  \<open>compilation.warnings\<close>. A path is truthy when it is not the empty string.
\<close>

definition checkWarnings :: "plugin \<Rightarrow> string list \<Rightarrow> plugin \<times> string list" where
  "checkWarnings p compilation_warnings =
     (let w1 = (case filepath (options p) of
                  None \<Rightarrow> warnings p
                | Some fp \<Rightarrow> if fp \<noteq> [] then warnings p @ [FILEPATH_WARNING] else warnings p);
          w2 = (if forceDelete (options p) = Some True then w1 @ [FORCEDELETE_WARNING] else w1);
          p' = p \<lparr> warnings := w2 \<rparr>
      in (p', if debug (workerOptions p') = Some True
              then compilation_warnings @ w2 else compilation_warnings))"

subsection \<open>The event loop\<close>

text \<open>
  What the host can observe of one run of the hook, in the order it happens: the
  generator is called, the warnings are checked, \<open>mkdirp\<close> is called and reports,
  \<open>writeFile\<close> is called and reports, the completion callback is called with an error
  or with none.
\<close>

datatype event =
    Generate
  | WarningsChecked
  | Mkdirp string
  | MkdirpDone "error option"
  | WriteFile string string
  | WriteDone "error option"
  | Callback "error option"

text \<open>
  The handler returns before any of its promises settles; the rest runs as tasks of
  the event loop. A reaction of a promise (the callback of a \<open>then\<close>) is a microtask,
  queued when the promise before it settles, and it carries that settlement. The
  completion of an input or output operation is a macrotask. The tasks of this
  handler are: the generator's promise settles; the reactions of the four \<open>then\<close> of
  lines 76 to 79, in order; the function given to \<open>mkdirp\<close> (line 164), which holds the
  path and the text to write; and the function given to \<open>writeFile\<close>, which is the
  host's completion callback.
\<close>

datatype task =
    Settle_generate
  | Then_minify "error + string"
  | Then_write "error + string"
  | Then_warnings "error + unit"
  | Then_done "error + unit"
  | Mkdirp_reports string string
  | WriteFile_reports "error option"

record loop =
  microtasks :: "task list"
  macrotasks :: "task list"
  trace :: "event list"

definition emit :: "event \<Rightarrow> loop \<Rightarrow> loop" where
  "emit ev l = l \<lparr> trace := trace l @ [ev] \<rparr>"

definition queue_microtask :: "task \<Rightarrow> loop \<Rightarrow> loop" where
  "queue_microtask t l = l \<lparr> microtasks := microtasks l @ [t] \<rparr>"

definition queue_macrotask :: "task \<Rightarrow> loop \<Rightarrow> loop" where
  "queue_macrotask t l = l \<lparr> macrotasks := macrotasks l @ [t] \<rparr>"

subsection \<open>Writing (lines 159 to 165)\<close>

text \<open>
  The host's completion callback, as the callback of \<open>writeFile\<close>: it is called with
  what the write reports.
\<close>

definition writeFile_reports :: "error option \<Rightarrow> loop \<Rightarrow> loop" where
  "writeFile_reports r l = emit (Callback r) (emit (WriteDone r) l)"

text \<open>
  \<open>outputFileSystem.writeFile(filepath, serviceWorker, callback)\<close>: an asynchronous
  file system calls back in a later turn of the event loop, a synchronous one inside
  the call.
\<close>

definition fs_writeFile :: "env \<Rightarrow> string \<Rightarrow> string \<Rightarrow> loop \<Rightarrow> loop" where
  "fs_writeFile e fp serviceWorker l =
     (if fs_async e
      then queue_macrotask (WriteFile_reports (writeFile e fp serviceWorker))
             (emit (WriteFile fp serviceWorker) l)
      else writeFile_reports (writeFile e fp serviceWorker)
             (emit (WriteFile fp serviceWorker) l))"

text \<open>
  Line 164, the function given to \<open>mkdirp\<close>: it takes no argument, so whatever
  \<open>mkdirp\<close> reports, \<open>writeFile\<close> is called.
\<close>

definition mkdirp_reports :: "env \<Rightarrow> string \<Rightarrow> string \<Rightarrow> loop \<Rightarrow> loop" where
  "mkdirp_reports e fp serviceWorker l =
     fs_writeFile e fp serviceWorker (emit (MkdirpDone (mkdirp e (path_resolve e fp ''..''))) l)"

definition fs_mkdirp :: "env \<Rightarrow> string \<Rightarrow> string \<Rightarrow> loop \<Rightarrow> loop" where
  "fs_mkdirp e fp serviceWorker l =
     (if fs_async e
      then queue_macrotask (Mkdirp_reports fp serviceWorker)
             (emit (Mkdirp (path_resolve e fp ''..'')) l)
      else mkdirp_reports e fp serviceWorker (emit (Mkdirp (path_resolve e fp ''..'')) l))"

text \<open>
  \<open>writeServiceWorker\<close> returns what \<open>mkdirp\<close> returns, which is no promise:
  \<open>Inr ()\<close> is the value \<open>undefined\<close>. \<open>path.resolve\<close> of a missing path raises.
\<close>

definition writeServiceWorker :: "env \<Rightarrow> plugin \<Rightarrow> string \<Rightarrow> loop \<Rightarrow> (error + unit) \<times> loop" where
  "writeServiceWorker e p serviceWorker l =
     (case filepath (workerOptions p) of
        None \<Rightarrow> (Inl TypeError, l)
      | Some fp \<Rightarrow> (Inr (), fs_mkdirp e fp serviceWorker l))"

subsection \<open>The hook (lines 67 to 81)\<close>

text \<open>
  One task. The generator's promise settles as the host says. The first \<open>then\<close> is
  the one inside \<open>createServiceWorker\<close>. The second calls \<open>writeServiceWorker\<close> when
  the service worker was created, and settles as soon as that call returns. The third
  was given \<open>undefined\<close> (the value of \<open>this.checkWarnings(compilation)\<close>), so it
  passes the settlement on. The fourth calls \<open>done\<close> or \<open>error\<close>, that is the host's
  completion callback. A \<open>then\<close> without a handler for rejection passes a rejection
  on.
\<close>

definition exec :: "env \<Rightarrow> plugin \<Rightarrow> task \<Rightarrow> loop \<Rightarrow> loop" where
  "exec e p t l =
     (case t of
        Settle_generate \<Rightarrow> queue_microtask (Then_minify (generate e (workerOptions p))) l
      | Then_minify r \<Rightarrow> queue_microtask (Then_write (minify_callback e p r)) l
      | Then_write r \<Rightarrow>
          (case r of
             Inl err \<Rightarrow> queue_microtask (Then_warnings (Inl err)) l
           | Inr serviceWorker \<Rightarrow>
               (case writeServiceWorker e p serviceWorker l of
                  (returned, l') \<Rightarrow> queue_microtask (Then_warnings returned) l'))
      | Then_warnings r \<Rightarrow> queue_microtask (Then_done r) l
      | Then_done r \<Rightarrow>
          (case r of Inl err \<Rightarrow> emit (Callback (Some err)) l | Inr u \<Rightarrow> emit (Callback None) l)
      | Mkdirp_reports fp serviceWorker \<Rightarrow> mkdirp_reports e fp serviceWorker l
      | WriteFile_reports r \<Rightarrow> writeFile_reports r l)"

text \<open>
  The event loop: the microtasks first, in the order they were queued, until none is
  left; then the next macrotask. Every task queues tasks that weigh less than itself,
  so the loop ends.
\<close>

fun weight :: "task \<Rightarrow> nat" where
  "weight Settle_generate = 7"
| "weight (Then_minify r) = 6"
| "weight (Then_write r) = 5"
| "weight (Then_warnings r) = 2"
| "weight (Then_done r) = 1"
| "weight (Mkdirp_reports fp serviceWorker) = 2"
| "weight (WriteFile_reports r) = 1"

definition pending :: "loop \<Rightarrow> nat" where
  "pending l = sum_list (map weight (microtasks l)) + sum_list (map weight (macrotasks l))"

function run :: "env \<Rightarrow> plugin \<Rightarrow> loop \<Rightarrow> loop" where
  "run e p l =
     (case microtasks l of
        t # ts \<Rightarrow> run e p (exec e p t (l \<lparr> microtasks := ts \<rparr>))
      | [] \<Rightarrow>
          (case macrotasks l of
             t # ts \<Rightarrow> run e p (exec e p t (l \<lparr> macrotasks := ts \<rparr>))
           | [] \<Rightarrow> l))"
  by pat_completeness auto
termination
proof (relation "measure (\<lambda>(e, p, l). pending l)")
  show "wf (measure (\<lambda>(e, p, l). pending l))" by simp
next
  fix e p t ts and l :: loop
  assume "microtasks l = t # ts"
  then show "((e, p, exec e p t (l \<lparr> microtasks := ts \<rparr>)), (e, p, l))
               \<in> measure (\<lambda>(e, p, l). pending l)"
    by (cases t)
       (auto simp: pending_def exec_def emit_def queue_microtask_def queue_macrotask_def
          writeServiceWorker_def fs_mkdirp_def mkdirp_reports_def fs_writeFile_def
          writeFile_reports_def split: sum.splits option.splits)
next
  fix e p t ts and l :: loop
  assume "microtasks l = []" and "macrotasks l = t # ts"
  then show "((e, p, exec e p t (l \<lparr> macrotasks := ts \<rparr>)), (e, p, l))
               \<in> measure (\<lambda>(e, p, l). pending l)"
    by (cases t)
       (auto simp: pending_def exec_def emit_def queue_microtask_def queue_macrotask_def
          writeServiceWorker_def fs_mkdirp_def mkdirp_reports_def fs_writeFile_def
          writeFile_reports_def split: sum.splits option.splits)
qed

text \<open>
  The handler of \<open>after-emit\<close>. \<open>configure\<close> runs first; when it raises, the handler
  raises and nothing else happens. Building the promise chain calls the generator, and
  then evaluates the argument \<open>this.checkWarnings(compilation)\<close> of the third
  \<open>then\<close>: the warnings are checked at once. The handler returns, and the event loop
  runs what is left: the generator's promise is still to settle. The tasks read
  \<open>this.options\<close> and the three layers, which \<open>checkWarnings\<close> leaves as they are.
\<close>

definition promise_chain :: "env \<Rightarrow> plugin \<Rightarrow> event list" where
  "promise_chain e p =
     trace (run e p \<lparr> microtasks = [], macrotasks = [Settle_generate], trace = [] \<rparr>)"

definition after_emit ::
  "env \<Rightarrow> build \<Rightarrow> plugin \<Rightarrow> string list \<Rightarrow> error + plugin \<times> string list \<times> event list" where
  "after_emit e b p compilation_warnings =
     (case configure e b p of
        Inl err \<Rightarrow> Inl err
      | Inr configured \<Rightarrow>
          (case checkWarnings configured compilation_warnings of
             (p', compilation_warnings') \<Rightarrow>
               Inr (p', compilation_warnings', Generate # WarningsChecked # promise_chain e p')))"

text \<open>
  An instance lives through many builds (watch mode). \<open>plugin_after user builds\<close> is
  the instance made from the options \<open>user\<close> after the hook has run for each of
  \<open>builds\<close>, in order; a build whose handler raised leaves the instance as it was.
\<close>

definition build_step :: "plugin \<Rightarrow> env \<times> build \<times> string list \<Rightarrow> plugin" where
  "build_step p x =
     (case x of (e, b, compilation_warnings) \<Rightarrow>
        (case after_emit e b p compilation_warnings of
           Inl err \<Rightarrow> p
         | Inr (p', compilation_warnings', events) \<Rightarrow> p'))"

definition plugin_after :: "settings \<Rightarrow> (env \<times> build \<times> string list) list \<Rightarrow> plugin" where
  "plugin_after user builds = foldl build_step (new_plugin user) builds"

subsection \<open>Observations used in the statements\<close>

text \<open>The keys of an option object, and whether two objects hold the same value at a key.\<close>

datatype key =
    K_cacheId | K_filename | K_filepath | K_importScripts | K_staticFileGlobsIgnorePatterns
  | K_mergeStaticsConfig | K_minify | K_debug | K_forceDelete | K_staticFileGlobs
  | K_stripPrefixMulti | K_other string

fun has_key :: "settings \<Rightarrow> key \<Rightarrow> bool" where
  "has_key s K_cacheId = (cacheId s \<noteq> None)"
| "has_key s K_filename = (filename s \<noteq> None)"
| "has_key s K_filepath = (filepath s \<noteq> None)"
| "has_key s K_importScripts = (importScripts s \<noteq> None)"
| "has_key s K_staticFileGlobsIgnorePatterns = (staticFileGlobsIgnorePatterns s \<noteq> None)"
| "has_key s K_mergeStaticsConfig = (mergeStaticsConfig s \<noteq> None)"
| "has_key s K_minify = (minify s \<noteq> None)"
| "has_key s K_debug = (debug s \<noteq> None)"
| "has_key s K_forceDelete = (forceDelete s \<noteq> None)"
| "has_key s K_staticFileGlobs = (staticFileGlobs s \<noteq> None)"
| "has_key s K_stripPrefixMulti = (stripPrefixMulti s \<noteq> None)"
| "has_key s (K_other name) = (passthrough s name \<noteq> None)"

fun same_at :: "key \<Rightarrow> settings \<Rightarrow> settings \<Rightarrow> bool" where
  "same_at K_cacheId s t = (cacheId s = cacheId t)"
| "same_at K_filename s t = (filename s = filename t)"
| "same_at K_filepath s t = (filepath s = filepath t)"
| "same_at K_importScripts s t = (importScripts s = importScripts t)"
| "same_at K_staticFileGlobsIgnorePatterns s t =
     (staticFileGlobsIgnorePatterns s = staticFileGlobsIgnorePatterns t)"
| "same_at K_mergeStaticsConfig s t = (mergeStaticsConfig s = mergeStaticsConfig t)"
| "same_at K_minify s t = (minify s = minify t)"
| "same_at K_debug s t = (debug s = debug t)"
| "same_at K_forceDelete s t = (forceDelete s = forceDelete t)"
| "same_at K_staticFileGlobs s t = (staticFileGlobs s = staticFileGlobs t)"
| "same_at K_stripPrefixMulti s t = (stripPrefixMulti s = stripPrefixMulti t)"
| "same_at (K_other name) s t = (passthrough s name = passthrough t name)"

text \<open>
  \<open>join sep parts\<close> is JavaScript's \<open>parts.join(sep)\<close>; \<open>contains_token\<close> says that
  the placeholder occurs somewhere in a text.
\<close>

fun join :: "string \<Rightarrow> string list \<Rightarrow> string" where
  "join sep [] = []"
| "join sep [x] = x"
| "join sep (x # y # ys) = x @ sep @ join sep (y # ys)"

fun contains_token :: "string \<Rightarrow> bool" where
  "contains_token [] = False"
| "contains_token (c # cs) = (take 6 (c # cs) = HASH_TOKEN \<or> contains_token cs)"

text \<open>The warnings one run of \<open>checkWarnings\<close> adds for the options \<open>opts\<close>.\<close>

definition triggered :: "settings \<Rightarrow> string list" where
  "triggered opts =
     (case filepath opts of None \<Rightarrow> [] | Some fp \<Rightarrow> if fp \<noteq> [] then [FILEPATH_WARNING] else [])
     @ (if forceDelete opts = Some True then [FORCEDELETE_WARNING] else [])"

text \<open>
  A host for the examples: a Unix system with Node's asynchronous file system on
  which every operation succeeds, a generator that returns a fixed script and a
  minifier that returns a fixed text. The path and URL functions are the ones of Node
  on the inputs used here: a directory without a trailing separator, a plain file name
  (or \<open>..\<close> after the path of a file in a directory other than the root), a public
  path that ends in a slash and a relative script.
\<close>

definition unix_env :: env where
  "unix_env =
     \<lparr> path_resolve = (\<lambda>dir name.
         if name = ''..'' then rev (tl (dropWhile (\<lambda>c. c \<noteq> CHR ''/'') (rev dir)))
         else dir @ ''/'' @ name),
       path_join = (\<lambda>dir name. dir @ ''/'' @ name),
       path_sep = ''/'',
       url_resolve = (\<lambda>base f. base @ f),
       generate = (\<lambda>cfg. Inr ''self.addEventListener()''),
       uglify = (\<lambda>name src. Inr ''minified''),
       mkdirp = (\<lambda>dir. None),
       writeFile = (\<lambda>file content. None),
       fs_async = True \<rparr>"

text \<open>The same host with an output directory that cannot be written.\<close>

definition readonly_env :: env where
  "readonly_env =
     unix_env \<lparr> mkdirp := (\<lambda>dir. Some (Failure ''EACCES'')),
                writeFile := (\<lambda>file content. Some (Failure ''ENOENT'')) \<rparr>"

definition dist_build :: build where
  "dist_build =
     \<lparr> outputPath = ''/dist'', publicPath = Some ''/assets/'',
       assets = [''a.js'', ''a.js.map'', ''b.css''], hash = ''abc123'' \<rparr>"

text \<open>The pattern \<open>/\.map$/\<close>.\<close>

definition ends_with_map :: regex where
  "ends_with_map =
     \<lparr> ident = 0,
       exec_from = (\<lambda>text i.
         if i + 4 \<le> length text \<and> drop (length text - 4) text = ''.map''
         then Some (length text) else None),
       global = False, sticky = False \<rparr>"

text \<open>The pattern \<open>/\.map$/g\<close>, and a build that emits three source maps.\<close>

definition ends_with_map_g :: regex where
  "ends_with_map_g = ends_with_map \<lparr> ident := 1, global := True \<rparr>"

definition maps_build :: build where
  "maps_build = dist_build \<lparr> assets := [''a.js.map'', ''b.js.map'', ''c.js.map'', ''d.js''] \<rparr>"

definition global_options :: settings where
  "global_options = no_settings \<lparr> staticFileGlobsIgnorePatterns := Some [ends_with_map_g] \<rparr>"

text \<open>Two sets of user options.\<close>

definition watch_options :: settings where
  "watch_options =
     no_settings
       \<lparr> importScripts := Some [''push-[hash].js''],
         staticFileGlobsIgnorePatterns := Some [ends_with_map],
         mergeStaticsConfig := Some True, minify := Some True, debug := Some True,
         forceDelete := Some True, staticFileGlobs := Some [''/dist/img/logo.png''],
         stripPrefixMulti := Some [''/dist/'' \<mapsto> ''/wrong/''] \<rparr>"

definition cdn_options :: settings where
  "cdn_options =
     no_settings
       \<lparr> filepath := Some ''/srv/www/sw.js'', staticFileGlobs := Some [''/cdn/lib.js''],
         stripPrefixMulti := Some [''/cdn/'' \<mapsto> ''/''] \<rparr>"

text \<open>The two instances after \<open>configure\<close> has run for the build above.\<close>

definition watch_configured :: plugin where
  "watch_configured = projr (configure unix_env dist_build (new_plugin watch_options))"

definition cdn_configured :: plugin where
  "cdn_configured = projr (configure unix_env dist_build (new_plugin cdn_options))"

section \<open>Lemmas\<close>

subsection \<open>Layers and configuration\<close>

lemma orelse_simps:
  "orelse None x = x" "orelse (Some v) x = Some v"
  by (simp_all add: orelse_def)

lemma spread_sel:
  "cacheId (spread a b) = orelse (cacheId b) (cacheId a)"
  "filename (spread a b) = orelse (filename b) (filename a)"
  "filepath (spread a b) = orelse (filepath b) (filepath a)"
  "importScripts (spread a b) = orelse (importScripts b) (importScripts a)"
  "staticFileGlobsIgnorePatterns (spread a b) =
     orelse (staticFileGlobsIgnorePatterns b) (staticFileGlobsIgnorePatterns a)"
  "mergeStaticsConfig (spread a b) = orelse (mergeStaticsConfig b) (mergeStaticsConfig a)"
  "minify (spread a b) = orelse (minify b) (minify a)"
  "debug (spread a b) = orelse (debug b) (debug a)"
  "forceDelete (spread a b) = orelse (forceDelete b) (forceDelete a)"
  "staticFileGlobs (spread a b) = orelse (staticFileGlobs b) (staticFileGlobs a)"
  "stripPrefixMulti (spread a b) = orelse (stripPrefixMulti b) (stripPrefixMulti a)"
  "passthrough (spread a b) = passthrough a ++ passthrough b"
  by (simp_all add: spread_def)

lemma default_sel:
  "filename DEFAULT_OPTIONS = Some DEFAULT_WORKER_FILENAME"
  "filepath DEFAULT_OPTIONS = None"
  "importScripts DEFAULT_OPTIONS = Some []"
  "staticFileGlobsIgnorePatterns DEFAULT_OPTIONS = Some []"
  "mergeStaticsConfig DEFAULT_OPTIONS = Some False"
  "minify DEFAULT_OPTIONS = Some False"
  "debug DEFAULT_OPTIONS = None"
  "forceDelete DEFAULT_OPTIONS = None"
  "staticFileGlobs DEFAULT_OPTIONS = None"
  "stripPrefixMulti DEFAULT_OPTIONS = None"
  by (simp_all add: DEFAULT_OPTIONS_def DEFAULT_IMPORT_SCRIPTS_def DEFAULT_IGNORE_PATTERNS_def
        no_settings_def)

lemma worker_sel:
  "filepath (workerOptions p) =
     orelse (filepath (overrides p)) (orelse (filepath (options p)) (filepath (config p)))"
  "importScripts (workerOptions p) =
     orelse (importScripts (overrides p)) (orelse (importScripts (options p)) (importScripts (config p)))"
  "debug (workerOptions p) =
     orelse (debug (overrides p)) (orelse (debug (options p)) (debug (config p)))"
  "staticFileGlobs (workerOptions p) =
     orelse (staticFileGlobs (overrides p))
       (orelse (staticFileGlobs (options p)) (staticFileGlobs (config p)))"
  "stripPrefixMulti (workerOptions p) =
     orelse (stripPrefixMulti (overrides p))
       (orelse (stripPrefixMulti (options p)) (stripPrefixMulti (config p)))"
  by (simp_all add: workerOptions_def spread_sel)

lemma workerOptions_warnings: "workerOptions (p \<lparr> warnings := w \<rparr>) = workerOptions p"
  by (simp add: workerOptions_def)

lemma filter_globs_Inr:
  "filter_globs pats entries indexes = Inr (globs, indexes') \<Longrightarrow>
   globs = fst (filter_entries (case pats of None \<Rightarrow> [] | Some ps \<Rightarrow> ps) entries indexes) \<and>
   indexes' = snd (filter_entries (case pats of None \<Rightarrow> [] | Some ps \<Rightarrow> ps) entries indexes)"
  by (auto simp: filter_globs_def split: option.splits list.splits)

text \<open>
  Patterns without the global and the sticky flag: the filter is the pure one, and no
  \<open>lastIndex\<close> changes.
\<close>

lemma some_test_stateless:
  assumes "\<forall>regex \<in> set patterns. \<not> global regex \<and> \<not> sticky regex"
  shows "some_test patterns text indexes =
           (\<exists>regex \<in> set patterns. exec_from regex text 0 \<noteq> None, indexes)"
  using assms
  by (induction patterns arbitrary: indexes)
     (auto simp: regexp_test_def split: option.splits)

lemma filter_entries_stateless:
  assumes "\<forall>regex \<in> set patterns. \<not> global regex \<and> \<not> sticky regex"
  shows "filter_entries patterns entries indexes =
           (filter (\<lambda>text. \<not> (\<exists>regex \<in> set patterns. exec_from regex text 0 \<noteq> None)) entries,
            indexes)"
  by (induction entries arbitrary: indexes) (simp_all add: some_test_stateless [OF assms])

text \<open>What configure leaves and what it writes.\<close>

lemma configure_frame:
  assumes "configure e b p = Inr p'"
  shows "options p' = options p" and "warnings p' = warnings p"
    and "debug (config p') = debug (config p)" and "debug (overrides p') = debug (overrides p)"
  using assms by (auto simp: configure_def Let_def split: sum.splits option.splits if_splits prod.splits)

lemma configure_filepath:
  assumes "configure e b p = Inr p'"
  shows "\<exists>fp. resolve_filepath e b (options p) = Inr fp \<and> filepath (overrides p') = Some fp"
  using assms by (auto simp: configure_def Let_def split: sum.splits option.splits if_splits prod.splits)

lemma configure_config:
  assumes "configure e b p = Inr p'"
  shows "staticFileGlobs (config p') =
           Some (fst (filter_entries
                   (case staticFileGlobsIgnorePatterns (options p) of None \<Rightarrow> [] | Some ps \<Rightarrow> ps)
                   (map (path_join e (outputPath b)) (assets b)
                    @ (case staticFileGlobs (options p) of None \<Rightarrow> [] | Some gs \<Rightarrow> gs))
                   (lastIndex p)))"
    and "stripPrefixMulti (config p') =
           Some (if outputPath b \<noteq> []
                 then (case stripPrefixMulti (options p) of None \<Rightarrow> Map.empty | Some m \<Rightarrow> m)
                        (outputPath b @ path_sep e \<mapsto>
                           (case publicPath b of None \<Rightarrow> DEFAULT_PUBLIC_PATH | Some q \<Rightarrow> q))
                 else (case stripPrefixMulti (options p) of None \<Rightarrow> Map.empty | Some m \<Rightarrow> m))"
  using assms
  by (auto simp: configure_def Let_def dest!: filter_globs_Inr split: sum.splits prod.splits)

lemma configure_statics:
  assumes "configure e b p = Inr p'"
  shows "staticFileGlobs (overrides p') =
           (if mergeStaticsConfig (options p) = Some True then staticFileGlobs (config p')
            else staticFileGlobs (overrides p))"
    and "stripPrefixMulti (overrides p') =
           (if mergeStaticsConfig (options p) = Some True then stripPrefixMulti (config p')
            else stripPrefixMulti (overrides p))"
  using assms by (auto simp: configure_def Let_def split: sum.splits option.splits prod.splits)

lemma configure_scripts:
  assumes "configure e b p = Inr p'"
  shows "importScripts (overrides p') =
           (case importScripts (options p) of
              None \<Rightarrow> importScripts (overrides p)
            | Some scripts \<Rightarrow>
                Some (map (url_resolve e (case publicPath b of None \<Rightarrow> DEFAULT_PUBLIC_PATH | Some q \<Rightarrow> q))
                       (map (replace_hash (hash b)) scripts)))"
  using assms by (auto simp: configure_def Let_def split: sum.splits option.splits prod.splits)

lemma configure_total:
  assumes "filename (options p) \<noteq> None" and "staticFileGlobsIgnorePatterns (options p) \<noteq> None"
  shows "\<exists>p'. configure e b p = Inr p'"
  using assms
  by (auto simp: configure_def Let_def resolve_filepath_def filter_globs_def
           split: sum.splits option.splits prod.splits)

lemma checkWarnings_eq:
  "checkWarnings p cw =
     (p \<lparr> warnings := warnings p @ triggered (options p) \<rparr>,
      if debug (workerOptions p) = Some True then cw @ warnings p @ triggered (options p) else cw)"
  by (auto simp: checkWarnings_def triggered_def Let_def workerOptions_warnings split: option.splits)

lemma after_emit_Inr:
  "after_emit e b p cw = Inr (p', cw', events) \<longleftrightarrow>
     (\<exists>c. configure e b p = Inr c \<and> p' = c \<lparr> warnings := warnings p @ triggered (options p) \<rparr> \<and>
          cw' = (if debug (workerOptions c) = Some True
                 then cw @ warnings p @ triggered (options p) else cw) \<and>
          events = Generate # WarningsChecked # promise_chain e p')"
  by (auto simp: after_emit_def checkWarnings_eq configure_frame split: sum.splits)

lemma plugin_after_snoc:
  "plugin_after user (builds @ [(e, b, cw)]) =
     (case after_emit e b (plugin_after user builds) cw of
        Inl err \<Rightarrow> plugin_after user builds
      | Inr (p', cw', events) \<Rightarrow> p')"
  unfolding plugin_after_def by (simp add: build_step_def)

lemma plugin_after_invariant:
  "options (plugin_after user builds) = spread DEFAULT_OPTIONS user \<and>
   debug (config (plugin_after user builds)) = None \<and>
   debug (overrides (plugin_after user builds)) = None \<and>
   (mergeStaticsConfig user \<noteq> Some True \<longrightarrow>
      staticFileGlobs (overrides (plugin_after user builds)) = None \<and>
      stripPrefixMulti (overrides (plugin_after user builds)) = None)"
proof (induction builds rule: rev_induct)
  case Nil
  show ?case by (simp add: plugin_after_def new_plugin_def no_settings_def)
next
  case (snoc x builds)
  obtain e b cw where x: "x = (e, b, cw)" by (cases x)
  show ?case
  proof (cases "after_emit e b (plugin_after user builds) cw")
    case (Inl err)
    with snoc x show ?thesis by (simp add: plugin_after_snoc)
  next
    case (Inr r)
    obtain p' cw' events where r: "r = (p', cw', events)" by (cases r)
    from Inr r obtain c where c: "configure e b (plugin_after user builds) = Inr c"
      and p': "p' = c \<lparr> warnings := warnings (plugin_after user builds)
                        @ triggered (options (plugin_after user builds)) \<rparr>"
      by (auto simp: after_emit_Inr)
    have m: "mergeStaticsConfig user \<noteq> Some True \<Longrightarrow>
             mergeStaticsConfig (options (plugin_after user builds)) \<noteq> Some True"
      using snoc by (cases "mergeStaticsConfig user") (simp_all add: spread_sel default_sel orelse_simps)
    have "plugin_after user (builds @ [x]) = p'"
      using Inr r x by (simp add: plugin_after_snoc)
    then show ?thesis
      using snoc p' m configure_frame [OF c] configure_statics [OF c] by simp
  qed
qed

lemma plugin_after_configure:
  "\<exists>c. configure e b (plugin_after user builds) = Inr c"
  using plugin_after_invariant [of user builds]
  by (intro configure_total) (auto simp: spread_sel default_sel orelse_def split: option.splits)

lemma plugin_after_merge:
  "mergeStaticsConfig (options (plugin_after user builds)) = Some True \<longleftrightarrow>
   mergeStaticsConfig user = Some True"
  using plugin_after_invariant [of user builds]
  by (cases "mergeStaticsConfig user") (simp_all add: spread_sel default_sel orelse_simps)

subsection \<open>The promise chain and the builds of an instance\<close>

text \<open>The event loop, one task at a time.\<close>

declare run.simps [simp del]

lemma run_microtask:
  "microtasks l = t # ts \<Longrightarrow> run e p l = run e p (exec e p t (l \<lparr> microtasks := ts \<rparr>))"
  by (subst run.simps) simp

lemma run_macrotask:
  "microtasks l = [] \<Longrightarrow> macrotasks l = t # ts \<Longrightarrow>
   run e p l = run e p (exec e p t (l \<lparr> macrotasks := ts \<rparr>))"
  by (subst run.simps) simp

lemma run_idle:
  "microtasks l = [] \<Longrightarrow> macrotasks l = [] \<Longrightarrow> run e p l = l"
  by (subst run.simps) simp

lemmas loop_defs =
  promise_chain_def run_microtask run_macrotask run_idle exec_def emit_def queue_microtask_def
  queue_macrotask_def writeServiceWorker_def fs_mkdirp_def mkdirp_reports_def fs_writeFile_def
  writeFile_reports_def

text \<open>
  What the loop does with the chain: a rejection goes through the reactions to
  \<open>error\<close>; otherwise \<open>done\<close> runs among the microtasks, before an asynchronous file
  system reports and after a synchronous one has.
\<close>

lemma promise_chain_rejected:
  "createServiceWorker e p = Inl err \<Longrightarrow> promise_chain e p = [Callback (Some err)]"
  by (simp add: createServiceWorker_def loop_defs)

lemma promise_chain_no_path:
  assumes "createServiceWorker e p = Inr sw" and "filepath (workerOptions p) = None"
  shows "promise_chain e p = [Callback (Some TypeError)]"
  using assms by (simp add: createServiceWorker_def loop_defs)

lemma promise_chain_written:
  assumes "createServiceWorker e p = Inr sw" and "filepath (workerOptions p) = Some fp"
  shows "promise_chain e p =
           (if fs_async e
            then [Mkdirp (path_resolve e fp ''..''), Callback None,
                  MkdirpDone (mkdirp e (path_resolve e fp ''..'')), WriteFile fp sw,
                  WriteDone (writeFile e fp sw), Callback (writeFile e fp sw)]
            else [Mkdirp (path_resolve e fp ''..''),
                  MkdirpDone (mkdirp e (path_resolve e fp ''..'')), WriteFile fp sw,
                  WriteDone (writeFile e fp sw), Callback (writeFile e fp sw), Callback None])"
  using assms by (simp add: createServiceWorker_def loop_defs)

lemma promise_chain_writes:
  assumes "filepath (workerOptions p) = Some fp"
  shows "WriteFile file content \<in> set (promise_chain e p) \<longleftrightarrow>
           file = fp \<and> createServiceWorker e p = Inr content"
proof (cases "createServiceWorker e p")
  case (Inl err)
  then show ?thesis by (simp add: promise_chain_rejected)
next
  case (Inr sw)
  then show ?thesis
    using assms by (auto simp: promise_chain_written)
qed

lemma after_emit_filepath:
  assumes "after_emit e b p cw = Inr (p', cw', events)"
  shows "\<exists>fp. resolve_filepath e b (options p) = Inr fp \<and> filepath (workerOptions p') = Some fp"
proof -
  from assms obtain c where c: "configure e b p = Inr c"
    and p': "p' = c \<lparr> warnings := warnings p @ triggered (options p) \<rparr>"
    by (auto simp: after_emit_Inr)
  from configure_filepath [OF c] show ?thesis
    by (auto simp: p' worker_sel orelse_simps)
qed

lemma plugin_after_emit:
  "\<exists>p' cw' events. after_emit e b (plugin_after user builds) cw = Inr (p', cw', events)"
proof -
  from plugin_after_configure obtain c
    where "configure e b (plugin_after user builds) = Inr c" by blast
  then show ?thesis by (simp add: after_emit_Inr)
qed

lemma plugin_after_Nil: "plugin_after user [] = new_plugin user"
  by (simp add: plugin_after_def)

text \<open>
  The events of one run, in general: a rejected generator or a throwing minifier leads
  to the callback with that error and to nothing else; otherwise the order of the
  callback and of the write depends on the file system only.
\<close>

lemma after_emit_rejected:
  assumes "after_emit e b p cw = Inr (p', cw', events)"
    and "createServiceWorker e p' = Inl err"
  shows "events = [Generate, WarningsChecked, Callback (Some err)]"
  using assms by (auto simp: after_emit_Inr promise_chain_rejected)

lemma after_emit_written:
  assumes "after_emit e b p cw = Inr (p', cw', events)"
    and "createServiceWorker e p' = Inr sw"
  shows "\<exists>fp. filepath (workerOptions p') = Some fp \<and>
           events =
             (if fs_async e
              then [Generate, WarningsChecked, Mkdirp (path_resolve e fp ''..''), Callback None,
                    MkdirpDone (mkdirp e (path_resolve e fp ''..'')), WriteFile fp sw,
                    WriteDone (writeFile e fp sw), Callback (writeFile e fp sw)]
              else [Generate, WarningsChecked, Mkdirp (path_resolve e fp ''..''),
                    MkdirpDone (mkdirp e (path_resolve e fp ''..'')), WriteFile fp sw,
                    WriteDone (writeFile e fp sw), Callback (writeFile e fp sw), Callback None])"
proof -
  from after_emit_filepath [OF assms(1)] obtain fp
    where fp: "filepath (workerOptions p') = Some fp" by blast
  have "events = Generate # WarningsChecked # promise_chain e p'"
    using assms(1) by (auto simp: after_emit_Inr)
  then show ?thesis
    using fp promise_chain_written [OF assms(2) fp] by simp
qed

text \<open>What is written, for any state of the instance.\<close>

lemma after_emit_content:
  assumes run: "after_emit e b p cw = Inr (p', cw', events)"
    and gen: "generate e (workerOptions p') = Inr source"
  shows "(minify (options p) = Some True \<longrightarrow>
            (case uglify e (case filename (options p) of None \<Rightarrow> ''undefined'' | Some name \<Rightarrow> name)
                    source of
               Inr code \<Rightarrow>
                 (\<exists>file. WriteFile file code \<in> set events) \<and>
                 (\<forall>file content. WriteFile file content \<in> set events \<longrightarrow> content = code)
             | Inl err \<Rightarrow> events = [Generate, WarningsChecked, Callback (Some err)])) \<and>
         (minify (options p) \<noteq> Some True \<longrightarrow>
            (\<exists>file. WriteFile file source \<in> set events) \<and>
            (\<forall>file content. WriteFile file content \<in> set events \<longrightarrow> content = source))"
proof -
  from after_emit_filepath [OF run] obtain fp
    where fp: "filepath (workerOptions p') = Some fp" by blast
  have ev: "events = Generate # WarningsChecked # promise_chain e p'"
    using run by (auto simp: after_emit_Inr)
  have opts: "options p' = options p"
    using run by (auto simp: after_emit_Inr configure_frame)
  have w: "\<And>file content. WriteFile file content \<in> set events \<longleftrightarrow>
             file = fp \<and> createServiceWorker e p' = Inr content"
    using promise_chain_writes [OF fp] by (simp add: ev)
  show ?thesis
  proof (cases "minify (options p) = Some True")
    case False
    then have "createServiceWorker e p' = Inr source"
      using gen opts by (simp add: createServiceWorker_def minify_callback_def)
    then show ?thesis using False w by auto
  next
    case True
    let ?name = "case filename (options p) of None \<Rightarrow> ''undefined'' | Some name \<Rightarrow> name"
    have csw: "createServiceWorker e p' = uglify e ?name source"
      using gen opts True by (simp add: createServiceWorker_def minify_callback_def)
    show ?thesis
    proof (cases "uglify e ?name source")
      case (Inl err)
      then show ?thesis
        using True csw by (simp add: ev promise_chain_rejected)
    next
      case (Inr code)
      then show ?thesis
        using True csw w by auto
    qed
  qed
qed

subsection \<open>The placeholder\<close>

lemma get_substitution_plain:
  "CHR ''$'' \<notin> set r \<Longrightarrow> get_substitution m pre post r = r"
  by (induction m pre post r rule: get_substitution.induct) auto

lemma join_cons_empty: "ps \<noteq> [] \<Longrightarrow> join sep ([] # ps) = sep @ join sep ps"
  by (cases ps) simp_all

lemma join_cons_char: "join sep ((c # x) # ps) = c # join sep (x # ps)"
  by (cases ps) simp_all

lemma join_head: "\<exists>rest. join sep (x # ps) = x @ rest"
  by (cases ps) simp_all

lemma take_token_append:
  "take 6 xs = HASH_TOKEN \<Longrightarrow> take 6 (xs @ ys) = HASH_TOKEN"
proof -
  assume t: "take 6 xs = HASH_TOKEN"
  then have "length (take 6 xs) = 6" by (simp add: HASH_TOKEN_def)
  then have "6 \<le> length xs" by simp
  then show ?thesis using t by simp
qed

lemma replace_from_parts:
  assumes plain: "CHR ''$'' \<notin> set h"
  shows "\<exists>parts. parts \<noteq> [] \<and> s = join HASH_TOKEN parts \<and> replace_from h pre s = join h parts \<and>
                 (\<forall>part \<in> set parts. \<not> contains_token part)"
  using plain
proof (induction h pre s rule: replace_from.induct)
  case (1 h pre)
  have "[] = join HASH_TOKEN [[]] \<and> replace_from h pre [] = join h [[]] \<and>
        (\<forall>part \<in> set [[]]. \<not> contains_token part)" by simp
  then show ?case by blast
next
  case (2 h pre c cs)
  note plain = \<open>CHR ''$'' \<notin> set h\<close>
  show ?case
  proof (cases "take 6 (c # cs) = HASH_TOKEN")
    case True
    from 2(1) [OF True plain] obtain parts where ne: "parts \<noteq> []"
      and s: "drop 6 (c # cs) = join HASH_TOKEN parts"
      and r: "replace_from h (pre @ HASH_TOKEN) (drop 6 (c # cs)) = join h parts"
      and f: "\<forall>part \<in> set parts. \<not> contains_token part" by blast
    have "c # cs = take 6 (c # cs) @ drop 6 (c # cs)" by (simp only: append_take_drop_id)
    also have "\<dots> = HASH_TOKEN @ join HASH_TOKEN parts" by (simp only: True s)
    also have "\<dots> = join HASH_TOKEN ([] # parts)" using ne by (rule join_cons_empty [symmetric])
    finally have "c # cs = join HASH_TOKEN ([] # parts)" .
    moreover have "replace_from h pre (c # cs) = join h ([] # parts)"
      using True r ne plain by (simp add: join_cons_empty get_substitution_plain)
    moreover have "\<forall>part \<in> set ([] # parts). \<not> contains_token part"
      using f by simp
    ultimately show ?thesis by blast
  next
    case False
    from 2(2) [OF False plain] obtain parts where ne: "parts \<noteq> []"
      and s: "cs = join HASH_TOKEN parts"
      and r: "replace_from h (pre @ [c]) cs = join h parts"
      and f: "\<forall>part \<in> set parts. \<not> contains_token part" by blast
    from ne obtain x ps where parts: "parts = x # ps" by (cases parts) auto
    obtain rest where rest: "cs = x @ rest" using s parts join_head by blast
    have "take 6 (c # x) \<noteq> HASH_TOKEN"
    proof
      assume "take 6 (c # x) = HASH_TOKEN"
      then have "take 6 ((c # x) @ rest) = HASH_TOKEN" by (rule take_token_append)
      with False rest show False by simp
    qed
    then have "\<not> contains_token (c # x)" using f parts by simp
    then have "\<forall>part \<in> set ((c # x) # ps). \<not> contains_token part"
      using f parts by simp
    moreover have "c # cs = join HASH_TOKEN ((c # x) # ps)"
      using s parts by (simp add: join_cons_char)
    moreover have "replace_from h pre (c # cs) = join h ((c # x) # ps)"
      using False r parts by (simp add: join_cons_char)
    ultimately show ?thesis by blast
  qed
qed

lemma configure_import_scripts:
  assumes c: "configure e b p = Inr p'"
    and scripts: "importScripts (options p) = Some scripts"
    and plain: "CHR ''$'' \<notin> set (hash b)"
  shows "\<exists>replaced.
           importScripts (overrides p') =
             Some (map (url_resolve e (case publicPath b of None \<Rightarrow> [] | Some q \<Rightarrow> q)) replaced) \<and>
           importScripts (workerOptions p') = importScripts (overrides p') \<and>
           list_all2
             (\<lambda>script r. \<exists>parts. script = join HASH_TOKEN parts \<and> r = join (hash b) parts \<and>
                                 (\<forall>part \<in> set parts. \<not> contains_token part))
             scripts replaced"
proof -
  let ?replaced = "map (replace_hash (hash b)) scripts"
  have ov: "importScripts (overrides p') =
             Some (map (url_resolve e (case publicPath b of None \<Rightarrow> [] | Some q \<Rightarrow> q)) ?replaced)"
    using configure_scripts [OF c] scripts unfolding DEFAULT_PUBLIC_PATH_def by simp
  then have "importScripts (workerOptions p') = importScripts (overrides p')"
    by (simp add: worker_sel orelse_simps)
  moreover have "list_all2
             (\<lambda>script r. \<exists>parts. script = join HASH_TOKEN parts \<and> r = join (hash b) parts \<and>
                                 (\<forall>part \<in> set parts. \<not> contains_token part))
             scripts ?replaced"
    unfolding list_all2_map2 replace_hash_def
    by (rule list_all2_refl) (use replace_from_parts [OF plain] in blast)
  ultimately show ?thesis using ov by blast
qed

subsection \<open>Warnings over the builds of an instance\<close>

lemma orelse_None: "orelse x None = x"
  by (cases x) (simp_all add: orelse_def)

lemma triggered_user: "triggered (spread DEFAULT_OPTIONS user) = triggered user"
  by (simp add: triggered_def spread_sel default_sel orelse_None)

lemma concat_replicate_snoc: "concat (replicate n xs) @ xs = concat (replicate (Suc n) xs)"
  by (induction n) simp_all

lemma plugin_after_warnings:
  "warnings (plugin_after user builds) = concat (replicate (length builds) (triggered user))"
proof (induction builds rule: rev_induct)
  case Nil
  show ?case by (simp add: plugin_after_def new_plugin_def)
next
  case (snoc x builds)
  obtain e b cw where x: "x = (e, b, cw)" by (cases x)
  from plugin_after_emit obtain p' cw' events
    where run: "after_emit e b (plugin_after user builds) cw = Inr (p', cw', events)" by blast
  then have "warnings p' = warnings (plugin_after user builds)
               @ triggered (options (plugin_after user builds))"
    by (auto simp: after_emit_Inr)
  then have "warnings p' = concat (replicate (length builds) (triggered user)) @ triggered user"
    using snoc plugin_after_invariant [of user builds] by (simp add: triggered_user)
  moreover have "plugin_after user (builds @ [x]) = p'"
    using run x by (simp add: plugin_after_snoc)
  ultimately show ?case by (simp only: concat_replicate_snoc length_append_singleton)
qed

subsection \<open>The examples\<close>

lemmas run_defs =
  after_emit_def configure_def checkWarnings_def createServiceWorker_def minify_callback_def
  loop_defs workerOptions_def spread_def orelse_def new_plugin_def DEFAULT_OPTIONS_def
  DEFAULT_IMPORT_SCRIPTS_def DEFAULT_IGNORE_PATTERNS_def no_settings_def resolve_filepath_def
  filter_globs_def regexp_test_def Let_def DEFAULT_WORKER_FILENAME_def DEFAULT_PUBLIC_PATH_def
  replace_hash_def HASH_TOKEN_def plugin_after_def build_step_def triggered_def

lemmas sample_defs =
  unix_env_def readonly_env_def dist_build_def watch_options_def cdn_options_def ends_with_map_def
  ends_with_map_g_def maps_build_def global_options_def

lemma watch_configure:
  "configure unix_env dist_build (new_plugin watch_options) = Inr watch_configured"
  by (simp add: watch_configured_def run_defs sample_defs)

lemma cdn_configure:
  "configure unix_env dist_build (new_plugin cdn_options) = Inr cdn_configured"
  by (simp add: cdn_configured_def run_defs sample_defs)

text \<open>
  The scenario of the specification: output directory \<open>/dist\<close>, public path
  \<open>/assets/\<close>, assets \<open>a.js\<close> and \<open>b.css\<close>, no user option.
\<close>

lemma end_to_end_scenario:
  "\<exists>p'. configure unix_env (dist_build \<lparr> assets := [''a.js'', ''b.css''] \<rparr>)
              (new_plugin no_settings) = Inr p' \<and>
        staticFileGlobs (workerOptions p') = Some [''/dist/a.js'', ''/dist/b.css''] \<and>
        filepath (workerOptions p') = Some ''/dist/service-worker.js'' \<and>
        stripPrefixMulti (workerOptions p') = Some [''/dist/'' \<mapsto> ''/assets/'']"
  by (simp add: run_defs sample_defs)

text \<open>The options of an instance, in terms of what the user gave the constructor.\<close>

lemma plugin_after_options:
  "filename (options (plugin_after user builds)) =
     Some (case filename user of None \<Rightarrow> ''service-worker.js'' | Some name \<Rightarrow> name)"
  "filepath (options (plugin_after user builds)) = filepath user"
  "importScripts (options (plugin_after user builds)) =
     Some (case importScripts user of None \<Rightarrow> [] | Some scripts \<Rightarrow> scripts)"
  "staticFileGlobsIgnorePatterns (options (plugin_after user builds)) =
     Some (case staticFileGlobsIgnorePatterns user of None \<Rightarrow> [] | Some ps \<Rightarrow> ps)"
  "staticFileGlobs (options (plugin_after user builds)) = staticFileGlobs user"
  "stripPrefixMulti (options (plugin_after user builds)) = stripPrefixMulti user"
  "minify (options (plugin_after user builds)) = Some True \<longleftrightarrow> minify user = Some True"
  using plugin_after_invariant [of user builds]
  by (auto simp: spread_sel default_sel orelse_def DEFAULT_WORKER_FILENAME_def split: option.splits)

text \<open>
  The file globs at every build of an instance whose patterns have neither the global
  nor the sticky flag: the assets joined to the output directory, then the user's
  globs, without the entries in which some pattern finds a match.
\<close>

lemma file_globs_without_flags:
  assumes "\<forall>regex \<in> set (case staticFileGlobsIgnorePatterns user of None \<Rightarrow> [] | Some ps \<Rightarrow> ps).
             \<not> global regex \<and> \<not> sticky regex"
  shows "\<exists>p'. configure e b (plugin_after user builds) = Inr p' \<and>
           staticFileGlobs (config p') =
             Some (filter (\<lambda>entry. \<not> (\<exists>regex \<in> set (case staticFileGlobsIgnorePatterns user of
                                                      None \<Rightarrow> [] | Some ps \<Rightarrow> ps).
                                       exec_from regex entry 0 \<noteq> None))
                     (map (path_join e (outputPath b)) (assets b)
                      @ (case staticFileGlobs user of None \<Rightarrow> [] | Some gs \<Rightarrow> gs)))"
proof -
  from plugin_after_configure obtain p'
    where c: "configure e b (plugin_after user builds) = Inr p'" by blast
  from configure_config(1) [OF c] show ?thesis
    using c by (simp add: plugin_after_options filter_entries_stateless [OF assms])
qed

section \<open>Properties of the plugin\<close>

text \<open>
  In what follows \<open>plugin_after user builds\<close> is any instance the constructor has
  made, after any number of builds; \<open>e\<close> and \<open>b\<close> are the host and the build of the
  next run of the hook.
\<close>

text \<open>
  Claim C1: the completion callback fires only after the write of the service worker
  has finished, and the warnings are checked only after the write. The source does
  neither. At the input below (Node's file system, no user option, every operation
  succeeds) the warnings are checked before \<open>mkdirp\<close> is called, and the callback is
  called with success before \<open>writeFile\<close> is called, then a second time when the
  write has finished.
\<close>

theorem callback_before_write:
  "\<not> isl (after_emit unix_env dist_build (new_plugin no_settings) []) \<and>
   snd (snd (projr (after_emit unix_env dist_build (new_plugin no_settings) []))) =
     [Generate, WarningsChecked, Mkdirp ''/dist'', Callback None, MkdirpDone None,
      WriteFile ''/dist/service-worker.js'' ''self.addEventListener()'', WriteDone None,
      Callback None]"
  by (simp add: run_defs sample_defs)

text \<open>
  Claim C2: a key of the overrides has, in the effective configuration, the value the
  overrides give it, whatever \<open>config\<close> and \<open>options\<close> hold. At every build
  \<open>configure\<close> returns, and the overrides then hold the path and the import scripts,
  and the file globs and the prefixes when \<open>mergeStaticsConfig\<close> is true.
\<close>

theorem overrides_take_precedence:
  "(has_key (overrides p) k \<longrightarrow> same_at k (workerOptions p) (overrides p)) \<and>
   (\<exists>q. configure e b (plugin_after user builds) = Inr q \<and>
        has_key (overrides q) K_filepath \<and>
        has_key (overrides q) K_importScripts \<and>
        (mergeStaticsConfig user = Some True \<longrightarrow>
           has_key (overrides q) K_staticFileGlobs \<and> has_key (overrides q) K_stripPrefixMulti))"
proof
  show "has_key (overrides p) k \<longrightarrow> same_at k (workerOptions p) (overrides p)"
    by (cases k) (auto simp: workerOptions_def spread_sel orelse_simps map_add_def)
next
  from plugin_after_configure obtain q
    where c: "configure e b (plugin_after user builds) = Inr q" by blast
  have "has_key (overrides q) K_filepath"
    using configure_filepath [OF c] by auto
  moreover have "has_key (overrides q) K_importScripts"
    using configure_scripts [OF c] by (simp add: plugin_after_options)
  moreover have "mergeStaticsConfig user = Some True \<longrightarrow>
           has_key (overrides q) K_staticFileGlobs \<and> has_key (overrides q) K_stripPrefixMulti"
    using configure_statics [OF c] configure_config [OF c] plugin_after_merge [of user builds]
    by simp
  ultimately show "\<exists>q. configure e b (plugin_after user builds) = Inr q \<and>
        has_key (overrides q) K_filepath \<and>
        has_key (overrides q) K_importScripts \<and>
        (mergeStaticsConfig user = Some True \<longrightarrow>
           has_key (overrides q) K_staticFileGlobs \<and> has_key (overrides q) K_stripPrefixMulti)"
    using c by blast
qed

text \<open>
  An instance with conflicting user prefixes and \<open>mergeStaticsConfig\<close>: the prefixes
  and the path of the effective configuration are those of the overrides.
\<close>

theorem overrides_take_precedence_witness:
  "has_key (overrides watch_configured) K_stripPrefixMulti \<and>
   same_at K_stripPrefixMulti (workerOptions watch_configured) (overrides watch_configured) \<and>
   has_key (overrides watch_configured) K_filepath \<and>
   same_at K_filepath (workerOptions watch_configured) (overrides watch_configured) \<and>
   filepath (workerOptions watch_configured) = Some ''/dist/service-worker.js''"
proof -
  have m: "mergeStaticsConfig watch_options = Some True"
    by (simp add: watch_options_def)
  have k: "has_key (overrides watch_configured) K_stripPrefixMulti"
    "has_key (overrides watch_configured) K_filepath"
    using overrides_take_precedence
      [of watch_configured K_filepath unix_env dist_build watch_options "[]"]
      m by (auto simp: plugin_after_Nil watch_configure)
  have "same_at K_stripPrefixMulti (workerOptions watch_configured) (overrides watch_configured)"
    using overrides_take_precedence [of watch_configured K_stripPrefixMulti] k by blast
  moreover have s: "same_at K_filepath (workerOptions watch_configured) (overrides watch_configured)"
    using overrides_take_precedence [of watch_configured K_filepath] k by blast
  moreover have "filepath (overrides watch_configured) = Some ''/dist/service-worker.js''"
    by (simp add: watch_configured_def run_defs sample_defs)
  ultimately show ?thesis using k s by simp
qed

text \<open>
  Claim C3, as amended: at every build with a known output directory, the prefix map
  of the \<open>config\<close> layer maps the output directory followed by the separator to the
  public path, whatever the user's map holds at that key; the prefix map of the
  effective configuration does so when \<open>mergeStaticsConfig\<close> is true or the user gave
  no \<open>stripPrefixMulti\<close>.
\<close>

theorem output_dir_prefix:
  assumes known: "outputPath b \<noteq> []"
  shows "\<exists>p'. configure e b (plugin_after user builds) = Inr p' \<and>
           (\<exists>m. stripPrefixMulti (config p') = Some m \<and>
                m (outputPath b @ path_sep e) =
                  Some (case publicPath b of None \<Rightarrow> [] | Some q \<Rightarrow> q)) \<and>
           (mergeStaticsConfig user = Some True \<or> stripPrefixMulti user = None \<longrightarrow>
              (\<exists>m. stripPrefixMulti (workerOptions p') = Some m \<and>
                   m (outputPath b @ path_sep e) =
                     Some (case publicPath b of None \<Rightarrow> [] | Some q \<Rightarrow> q)))"
proof -
  from plugin_after_configure obtain p'
    where c: "configure e b (plugin_after user builds) = Inr p'" by blast
  have cfg: "\<exists>m. stripPrefixMulti (config p') = Some m \<and>
              m (outputPath b @ path_sep e) =
                Some (case publicPath b of None \<Rightarrow> [] | Some q \<Rightarrow> q)"
    using configure_config(2) [OF c] known unfolding DEFAULT_PUBLIC_PATH_def by simp
  note inv = plugin_after_invariant [of user builds]
  note mrg = plugin_after_merge [of user builds]
  have "stripPrefixMulti (workerOptions p') = stripPrefixMulti (config p')"
    if "mergeStaticsConfig user = Some True \<or> stripPrefixMulti user = None"
  proof (cases "mergeStaticsConfig user = Some True")
    case True
    then have "stripPrefixMulti (overrides p') = stripPrefixMulti (config p')"
      using configure_statics(2) [OF c] mrg by simp
    then show ?thesis
      using cfg by (auto simp: worker_sel orelse_simps)
  next
    case False
    with that have none: "stripPrefixMulti user = None" by simp
    have "stripPrefixMulti (overrides p') = None"
      using False configure_statics(2) [OF c] mrg inv by simp
    moreover have "stripPrefixMulti (options p') = None"
      using configure_frame(1) [OF c] none by (simp add: plugin_after_options)
    ultimately show ?thesis
      by (simp add: worker_sel orelse_simps)
  qed
  with cfg c show ?thesis by auto
qed

text \<open>
The user maps the key to another path; the computed entry wins.
\<close>

theorem output_dir_prefix_witness:
  "outputPath dist_build \<noteq> [] \<and>
   configure unix_env dist_build (plugin_after watch_options []) = Inr watch_configured \<and>
   (\<exists>m. stripPrefixMulti (config watch_configured) = Some m \<and> m ''/dist/'' = Some ''/assets/'') \<and>
   (\<exists>m. stripPrefixMulti (workerOptions watch_configured) = Some m \<and>
        m ''/dist/'' = Some ''/assets/'')"
proof -
  have k: "outputPath dist_build \<noteq> []" by (simp add: dist_build_def)
  have m: "mergeStaticsConfig watch_options = Some True" by (simp add: watch_options_def)
  have c: "configure unix_env dist_build (plugin_after watch_options []) = Inr watch_configured"
    by (simp add: plugin_after_Nil watch_configure)
  from output_dir_prefix [OF k, of unix_env watch_options "[]"] m
  have "(\<exists>m. stripPrefixMulti (config watch_configured) = Some m \<and>
            m (outputPath dist_build @ path_sep unix_env) =
              Some (case publicPath dist_build of None \<Rightarrow> [] | Some q \<Rightarrow> q)) \<and>
        (\<exists>m. stripPrefixMulti (workerOptions watch_configured) = Some m \<and>
            m (outputPath dist_build @ path_sep unix_env) =
              Some (case publicPath dist_build of None \<Rightarrow> [] | Some q \<Rightarrow> q))"
    unfolding c by auto
  then show ?thesis using k c by (simp add: unix_env_def dist_build_def)
qed

text \<open>
  Claim C3 as it was stated fails: with \<open>mergeStaticsConfig\<close> left false and a map
  from the user, the effective configuration holds the user's map alone, which has no
  entry for the output directory.
\<close>

theorem user_prefixes_replace_computed:
  "\<not> isl (configure unix_env dist_build (new_plugin cdn_options)) \<and>
   outputPath dist_build \<noteq> [] \<and>
   stripPrefixMulti (workerOptions (projr (configure unix_env dist_build (new_plugin cdn_options))))
     = Some [''/cdn/'' \<mapsto> ''/''] \<and>
   [''/cdn/'' \<mapsto> ''/''] (outputPath dist_build @ path_sep unix_env) = None"
  by (simp add: run_defs sample_defs)

text \<open>
  Claim C4: a failure of generation, minification, directory creation or writing ends
  the sequence and reaches the completion callback. Generation and minification do
  (see \<open>after_emit_rejected\<close>). A failure of \<open>mkdirp\<close> does not: its callback takes no
  argument, \<open>writeFile\<close> is called all the same, and the error of \<open>mkdirp\<close> reaches
  nobody. At the input below the callback is first called with success, and then with
  the error of \<open>writeFile\<close>.
\<close>

theorem mkdirp_error_dropped:
  "\<not> isl (after_emit readonly_env dist_build (new_plugin no_settings) []) \<and>
   snd (snd (projr (after_emit readonly_env dist_build (new_plugin no_settings) []))) =
     [Generate, WarningsChecked, Mkdirp ''/dist'', Callback None,
      MkdirpDone (Some (Failure ''EACCES'')),
      WriteFile ''/dist/service-worker.js'' ''self.addEventListener()'',
      WriteDone (Some (Failure ''ENOENT'')), Callback (Some (Failure ''ENOENT''))]"
  by (simp add: run_defs sample_defs)

text \<open>
  Claim C5: at every build, when \<open>mergeStaticsConfig\<close> is not true the file globs and
  the prefixes the user gave are the ones of the effective configuration; when it is
  true the computed ones (those of the \<open>config\<close> layer) are.
\<close>

theorem statics_precedence:
  "\<exists>p'. configure e b (plugin_after user builds) = Inr p' \<and>
     (mergeStaticsConfig user \<noteq> Some True \<longrightarrow>
        (\<forall>globs. staticFileGlobs user = Some globs \<longrightarrow>
                 staticFileGlobs (workerOptions p') = Some globs) \<and>
        (\<forall>prefixes. stripPrefixMulti user = Some prefixes \<longrightarrow>
                 stripPrefixMulti (workerOptions p') = Some prefixes)) \<and>
     (mergeStaticsConfig user = Some True \<longrightarrow>
        (\<exists>globs prefixes.
           staticFileGlobs (config p') = Some globs \<and>
           stripPrefixMulti (config p') = Some prefixes \<and>
           staticFileGlobs (workerOptions p') = Some globs \<and>
           stripPrefixMulti (workerOptions p') = Some prefixes))"
proof -
  from plugin_after_configure obtain p'
    where c: "configure e b (plugin_after user builds) = Inr p'" by blast
  note inv = plugin_after_invariant [of user builds]
  note mrg = plugin_after_merge [of user builds]
  have opts: "options p' = options (plugin_after user builds)"
    using configure_frame(1) [OF c] .
  have off: "staticFileGlobs (workerOptions p') = Some globs"
    if "mergeStaticsConfig user \<noteq> Some True" and "staticFileGlobs user = Some globs" for globs
  proof -
    have "staticFileGlobs (overrides p') = None"
      using configure_statics(1) [OF c] mrg inv that by simp
    then show ?thesis
      using that opts by (simp add: worker_sel plugin_after_options orelse_simps)
  qed
  have off': "stripPrefixMulti (workerOptions p') = Some prefixes"
    if "mergeStaticsConfig user \<noteq> Some True" and "stripPrefixMulti user = Some prefixes"
    for prefixes
  proof -
    have "stripPrefixMulti (overrides p') = None"
      using configure_statics(2) [OF c] mrg inv that by simp
    then show ?thesis
      using that opts by (simp add: worker_sel plugin_after_options orelse_simps)
  qed
  have on: "\<exists>globs prefixes.
           staticFileGlobs (config p') = Some globs \<and>
           stripPrefixMulti (config p') = Some prefixes \<and>
           staticFileGlobs (workerOptions p') = Some globs \<and>
           stripPrefixMulti (workerOptions p') = Some prefixes"
    if "mergeStaticsConfig user = Some True"
  proof -
    from configure_config [OF c] obtain globs prefixes
      where g: "staticFileGlobs (config p') = Some globs"
        and s: "stripPrefixMulti (config p') = Some prefixes" by blast
    have "staticFileGlobs (overrides p') = Some globs" "stripPrefixMulti (overrides p') = Some prefixes"
      using configure_statics [OF c] mrg that g s by simp_all
    then have "staticFileGlobs (workerOptions p') = Some globs"
      "stripPrefixMulti (workerOptions p') = Some prefixes"
      by (simp_all add: worker_sel orelse_simps)
    with g s show ?thesis by blast
  qed
  from c off off' on show ?thesis by blast
qed

text \<open>
One instance of each kind.
\<close>

theorem statics_precedence_witness:
  "mergeStaticsConfig cdn_options \<noteq> Some True \<and>
   configure unix_env dist_build (plugin_after cdn_options []) = Inr cdn_configured \<and>
   staticFileGlobs (workerOptions cdn_configured) = Some [''/cdn/lib.js''] \<and>
   mergeStaticsConfig watch_options = Some True \<and>
   configure unix_env dist_build (plugin_after watch_options []) = Inr watch_configured \<and>
   staticFileGlobs (workerOptions watch_configured) = staticFileGlobs (config watch_configured)"
proof -
  have off: "mergeStaticsConfig cdn_options \<noteq> Some True"
    and g: "staticFileGlobs cdn_options = Some [''/cdn/lib.js'']"
    and on: "mergeStaticsConfig watch_options = Some True"
    by (simp_all add: no_settings_def sample_defs)
  have c: "configure unix_env dist_build (plugin_after cdn_options []) = Inr cdn_configured"
    and w: "configure unix_env dist_build (plugin_after watch_options []) = Inr watch_configured"
    by (simp_all add: plugin_after_Nil cdn_configure watch_configure)
  have "staticFileGlobs (workerOptions cdn_configured) = Some [''/cdn/lib.js'']"
    using statics_precedence [of unix_env dist_build cdn_options "[]"] off g c by auto
  moreover have "staticFileGlobs (workerOptions watch_configured)
                 = staticFileGlobs (config watch_configured)"
    using statics_precedence [of unix_env dist_build watch_options "[]"] on w by auto
  ultimately show ?thesis using c w off on by simp
qed

text \<open>
  Claim C6: the computed list of file globs is the list of the asset names, each joined
  to the output directory, followed by the user's globs, without the entries that some
  ignore pattern matches. The source does that for patterns without the global and the
  sticky flag (see \<open>file_globs_without_flags\<close>). For a pattern with the global flag
  it does not: \<open>test\<close> starts where the last successful test of the same object
  ended. At the input below the pattern \<open>/\.map$/g\<close> matches \<open>/dist/b.js.map\<close>, the
  test of that entry starts at index 14, which the test of \<open>/dist/a.js.map\<close> left,
  and the entry is kept.
\<close>

theorem global_pattern_keeps_match:
  "\<not> isl (configure unix_env maps_build (new_plugin global_options)) \<and>
   exec_from ends_with_map_g ''/dist/b.js.map'' 0 = Some 14 \<and>
   staticFileGlobs (config (projr (configure unix_env maps_build (new_plugin global_options)))) =
     Some [''/dist/b.js.map'', ''/dist/d.js'']"
  by (simp add: run_defs sample_defs)

text \<open>
  Claim C7: at every build, the path of the effective configuration, which is the path
  of every write, is the user's \<open>filepath\<close> when there is one, and otherwise
  \<open>path.resolve\<close> of the output directory and the file name, which is
  \<open>service-worker.js\<close> unless the user gave one. The handler returns, and when the
  service worker is generated it is written to that path.
\<close>

theorem resolved_output_path:
  "\<exists>p' cw' events.
     after_emit e b (plugin_after user builds) cw = Inr (p', cw', events) \<and>
     filepath (workerOptions p') =
       Some (case filepath user of
               Some fp \<Rightarrow> fp
             | None \<Rightarrow> path_resolve e (outputPath b)
                         (case filename user of Some name \<Rightarrow> name | None \<Rightarrow> ''service-worker.js'')) \<and>
     (\<forall>file content. WriteFile file content \<in> set events \<longrightarrow>
        file = (case filepath user of
                  Some fp \<Rightarrow> fp
                | None \<Rightarrow> path_resolve e (outputPath b)
                            (case filename user of Some name \<Rightarrow> name | None \<Rightarrow> ''service-worker.js''))) \<and>
     (\<forall>serviceWorker. createServiceWorker e p' = Inr serviceWorker \<longrightarrow>
        WriteFile (case filepath user of
                     Some fp \<Rightarrow> fp
                   | None \<Rightarrow> path_resolve e (outputPath b)
                               (case filename user of Some name \<Rightarrow> name | None \<Rightarrow> ''service-worker.js''))
          serviceWorker \<in> set events)"
proof -
  let ?expected = "case filepath user of
               Some fp \<Rightarrow> fp
             | None \<Rightarrow> path_resolve e (outputPath b)
                         (case filename user of Some name \<Rightarrow> name | None \<Rightarrow> ''service-worker.js'')"
  from plugin_after_emit obtain p' cw' events
    where run: "after_emit e b (plugin_after user builds) cw = Inr (p', cw', events)" by blast
  have opts: "options (plugin_after user builds) = spread DEFAULT_OPTIONS user"
    using plugin_after_invariant by simp
  have "resolve_filepath e b (spread DEFAULT_OPTIONS user) = Inr ?expected"
    by (simp add: resolve_filepath_def spread_sel default_sel orelse_def DEFAULT_WORKER_FILENAME_def
          split: option.splits)
  with after_emit_filepath [OF run] opts
  have fp: "filepath (workerOptions p') = Some ?expected" by auto
  have ev: "events = Generate # WarningsChecked # promise_chain e p'"
    using run by (auto simp: after_emit_Inr)
  have "\<forall>file content. WriteFile file content \<in> set events \<longrightarrow> file = ?expected"
    using promise_chain_writes [OF fp] by (simp add: ev)
  moreover have "\<forall>serviceWorker. createServiceWorker e p' = Inr serviceWorker \<longrightarrow>
        WriteFile ?expected serviceWorker \<in> set events"
    using promise_chain_writes [OF fp] by (simp add: ev)
  ultimately show ?thesis using run fp by blast
qed

text \<open>
A user path, and the default.
\<close>

theorem resolved_output_path_witness:
  "(\<exists>p' cw' events.
      after_emit unix_env dist_build (plugin_after cdn_options []) [] = Inr (p', cw', events) \<and>
      filepath (workerOptions p') = Some ''/srv/www/sw.js'' \<and>
      WriteFile ''/srv/www/sw.js'' ''self.addEventListener()'' \<in> set events) \<and>
   (\<exists>p' cw' events.
      after_emit unix_env dist_build (plugin_after no_settings []) [] = Inr (p', cw', events) \<and>
      filepath (workerOptions p') = Some ''/dist/service-worker.js'' \<and>
      WriteFile ''/dist/service-worker.js'' ''self.addEventListener()'' \<in> set events)"
  using resolved_output_path [of unix_env dist_build cdn_options "[]" "[]"]
    resolved_output_path [of unix_env dist_build no_settings "[]" "[]"]
  by (simp add: run_defs sample_defs)

text \<open>
  Claim C8: at every build, when \<open>minify\<close> is true, what is written is what the
  minifier returns for the generated source under the key \<open>options.filename\<close>, and a
  minifier that throws leads to the completion callback with its error and to no
  write; when \<open>minify\<close> is not true, what is written is the generated source.
\<close>

theorem written_content:
  "\<exists>p' cw' events.
     after_emit e b (plugin_after user builds) cw = Inr (p', cw', events) \<and>
     (\<forall>source. generate e (workerOptions p') = Inr source \<longrightarrow>
        (minify user = Some True \<longrightarrow>
           (case uglify e (case filename user of None \<Rightarrow> ''service-worker.js'' | Some name \<Rightarrow> name)
                   source of
              Inr code \<Rightarrow>
                (\<exists>file. WriteFile file code \<in> set events) \<and>
                (\<forall>file content. WriteFile file content \<in> set events \<longrightarrow> content = code)
            | Inl err \<Rightarrow> events = [Generate, WarningsChecked, Callback (Some err)])) \<and>
        (minify user \<noteq> Some True \<longrightarrow>
           (\<exists>file. WriteFile file source \<in> set events) \<and>
           (\<forall>file content. WriteFile file content \<in> set events \<longrightarrow> content = source)))"
proof -
  from plugin_after_emit obtain p' cw' events
    where run: "after_emit e b (plugin_after user builds) cw = Inr (p', cw', events)" by blast
  have "(minify user = Some True \<longrightarrow>
           (case uglify e (case filename user of None \<Rightarrow> ''service-worker.js'' | Some name \<Rightarrow> name)
                   source of
              Inr code \<Rightarrow>
                (\<exists>file. WriteFile file code \<in> set events) \<and>
                (\<forall>file content. WriteFile file content \<in> set events \<longrightarrow> content = code)
            | Inl err \<Rightarrow> events = [Generate, WarningsChecked, Callback (Some err)])) \<and>
        (minify user \<noteq> Some True \<longrightarrow>
           (\<exists>file. WriteFile file source \<in> set events) \<and>
           (\<forall>file content. WriteFile file content \<in> set events \<longrightarrow> content = source))"
    if "generate e (workerOptions p') = Inr source" for source
    using after_emit_content [OF run that] by (simp add: plugin_after_options)
  with run show ?thesis by blast
qed

text \<open>
An instance that minifies and one that does not.
\<close>

theorem written_content_witness:
  "(\<exists>p' cw' events.
      after_emit unix_env dist_build (plugin_after watch_options []) [] = Inr (p', cw', events) \<and>
      generate unix_env (workerOptions p') = Inr ''self.addEventListener()'' \<and>
      minify watch_options = Some True \<and>
      WriteFile ''/dist/service-worker.js'' ''minified'' \<in> set events) \<and>
   (\<exists>p' cw' events.
      after_emit unix_env dist_build (plugin_after cdn_options []) [] = Inr (p', cw', events) \<and>
      generate unix_env (workerOptions p') = Inr ''self.addEventListener()'' \<and>
      minify cdn_options \<noteq> Some True \<and>
      WriteFile ''/srv/www/sw.js'' ''self.addEventListener()'' \<in> set events)"
  using written_content [of unix_env dist_build watch_options "[]" "[]"]
    written_content [of unix_env dist_build cdn_options "[]" "[]"]
  by (simp add: run_defs sample_defs)

text \<open>
  Claim C9: at every build whose hash has no dollar sign (a digest in hexadecimal or
  in base64 has none), every import script is cut at the occurrences of the
  placeholder into parts that hold no placeholder, the parts are joined again with the
  hash, the result is resolved against the public path, and the list is stored in the
  overrides, hence in the effective configuration.
\<close>

theorem import_scripts_resolved:
  assumes plain: "CHR ''$'' \<notin> set (hash b)"
  shows "\<exists>p' replaced.
           configure e b (plugin_after user builds) = Inr p' \<and>
           importScripts (overrides p') =
             Some (map (url_resolve e (case publicPath b of None \<Rightarrow> [] | Some q \<Rightarrow> q)) replaced) \<and>
           importScripts (workerOptions p') = importScripts (overrides p') \<and>
           list_all2
             (\<lambda>script r. \<exists>parts. script = join HASH_TOKEN parts \<and> r = join (hash b) parts \<and>
                                 (\<forall>part \<in> set parts. \<not> contains_token part))
             (case importScripts user of None \<Rightarrow> [] | Some scripts \<Rightarrow> scripts) replaced"
proof -
  from plugin_after_configure obtain p'
    where c: "configure e b (plugin_after user builds) = Inr p'" by blast
  from configure_import_scripts [OF c plugin_after_options(3) plain] c
  show ?thesis by blast
qed

text \<open>
The script \<open>push-[hash].js\<close> under the public path \<open>/assets/\<close>.
\<close>

theorem import_scripts_resolved_witness:
  "CHR ''$'' \<notin> set (hash dist_build) \<and>
   configure unix_env dist_build (plugin_after watch_options []) = Inr watch_configured \<and>
   importScripts (workerOptions watch_configured) = Some [''/assets/push-abc123.js''] \<and>
   (\<exists>replaced.
      importScripts (overrides watch_configured) = Some (map (url_resolve unix_env ''/assets/'') replaced) \<and>
      importScripts (workerOptions watch_configured) = importScripts (overrides watch_configured) \<and>
      list_all2
        (\<lambda>script r. \<exists>parts. script = join HASH_TOKEN parts \<and> r = join ''abc123'' parts \<and>
                            (\<forall>part \<in> set parts. \<not> contains_token part))
        [''push-[hash].js''] replaced)"
proof -
  have h: "CHR ''$'' \<notin> set (hash dist_build)"
    by (simp add: dist_build_def)
  have c: "configure unix_env dist_build (plugin_after watch_options []) = Inr watch_configured"
    by (simp add: plugin_after_Nil watch_configure)
  have v: "importScripts (workerOptions watch_configured) = Some [''/assets/push-abc123.js'']"
    by (simp add: watch_configured_def run_defs sample_defs)
  from import_scripts_resolved [OF h, of unix_env watch_options "[]"]
  have "\<exists>replaced.
      importScripts (overrides watch_configured) =
        Some (map (url_resolve unix_env (case publicPath dist_build of None \<Rightarrow> [] | Some q \<Rightarrow> q))
               replaced) \<and>
      importScripts (workerOptions watch_configured) = importScripts (overrides watch_configured) \<and>
      list_all2
        (\<lambda>script r. \<exists>parts. script = join HASH_TOKEN parts \<and> r = join (hash dist_build) parts \<and>
                            (\<forall>part \<in> set parts. \<not> contains_token part))
        (case importScripts watch_options of None \<Rightarrow> [] | Some scripts \<Rightarrow> scripts) replaced"
    unfolding c by auto
  then have "\<exists>replaced.
      importScripts (overrides watch_configured) = Some (map (url_resolve unix_env ''/assets/'') replaced) \<and>
      importScripts (workerOptions watch_configured) = importScripts (overrides watch_configured) \<and>
      list_all2
        (\<lambda>script r. \<exists>parts. script = join HASH_TOKEN parts \<and> r = join ''abc123'' parts \<and>
                            (\<forall>part \<in> set parts. \<not> contains_token part))
        [''push-[hash].js''] replaced"
    by (simp add: dist_build_def watch_options_def)
  then show ?thesis using h c v by simp
qed

text \<open>
  Claim C10, as amended: at every build the effective debug flag is the user's. When
  it is not true, \<open>compilation.warnings\<close> is left as it was, whatever the other options
  are. When it is true, all the warnings the instance has gathered are appended: at the
  first build of the instance one for a truthy \<open>filepath\<close> and one for a truthy
  \<open>forceDelete\<close>, and at its build number \<open>n\<close> that many copies of each, since
  \<open>this.warnings\<close> is never emptied.
\<close>

theorem warnings_need_debug:
  "\<exists>p' cw' events.
     after_emit e b (plugin_after user builds) cw = Inr (p', cw', events) \<and>
     debug (workerOptions p') = debug user \<and>
     (debug user \<noteq> Some True \<longrightarrow> cw' = cw) \<and>
     (debug user = Some True \<longrightarrow>
        cw' = cw @ concat (replicate (Suc (length builds)) (triggered user)) \<and>
        set (triggered user) \<subseteq> set cw') \<and>
     (debug user = Some True \<and> builds = [] \<longrightarrow> cw' = cw @ triggered user)"
proof -
  let ?p = "plugin_after user builds"
  from plugin_after_emit obtain p' cw' events
    where run: "after_emit e b ?p cw = Inr (p', cw', events)" by blast
  then obtain c where c: "configure e b ?p = Inr c"
    and p': "p' = c \<lparr> warnings := warnings ?p @ triggered (options ?p) \<rparr>"
    and cw': "cw' = (if debug (workerOptions c) = Some True
                     then cw @ warnings ?p @ triggered (options ?p) else cw)"
    by (auto simp: after_emit_Inr)
  note inv = plugin_after_invariant [of user builds]
  have d: "debug (workerOptions c) = debug user"
    using configure_frame [OF c] inv
    by (simp add: worker_sel spread_sel default_sel orelse_simps orelse_None)
  then have d': "debug (workerOptions p') = debug user"
    by (simp add: p' workerOptions_warnings)
  have w: "warnings ?p @ triggered (options ?p)
           = concat (replicate (Suc (length builds)) (triggered user))"
    using inv by (simp only: plugin_after_warnings triggered_user concat_replicate_snoc)
  have "debug user \<noteq> Some True \<longrightarrow> cw' = cw"
    using cw' d by simp
  moreover have on: "debug user = Some True \<longrightarrow>
        cw' = cw @ concat (replicate (Suc (length builds)) (triggered user)) \<and>
        set (triggered user) \<subseteq> set cw'"
    using cw' d w by auto
  moreover have "debug user = Some True \<and> builds = [] \<longrightarrow> cw' = cw @ triggered user"
    using on by auto
  ultimately show ?thesis using run d' by blast
qed

text \<open>
  With \<open>debug\<close> and \<open>forceDelete\<close> the warning is appended, once at the first build
  and twice at the second; with a custom path and without \<open>debug\<close> nothing is.
\<close>

theorem warnings_need_debug_witness:
  "(\<exists>p' events.
      after_emit unix_env dist_build (plugin_after watch_options []) [''earlier''] =
        Inr (p', [''earlier'', FORCEDELETE_WARNING], events)) \<and>
   (\<exists>p' events.
      after_emit unix_env dist_build
        (plugin_after watch_options [(unix_env, dist_build, [])]) [''earlier''] =
        Inr (p', [''earlier'', FORCEDELETE_WARNING, FORCEDELETE_WARNING], events)) \<and>
   (\<exists>p' events.
      after_emit unix_env dist_build (plugin_after cdn_options []) [''earlier''] =
        Inr (p', [''earlier''], events))"
  using warnings_need_debug [of unix_env dist_build watch_options "[]" "[''earlier'']"]
    warnings_need_debug
      [of unix_env dist_build watch_options "[(unix_env, dist_build, [])]" "[''earlier'']"]
    warnings_need_debug [of unix_env dist_build cdn_options "[]" "[''earlier'']"]
  by (auto simp add: triggered_def no_settings_def watch_options_def cdn_options_def)

text \<open>
  Claim C10 as it was stated fails: at the second build of an instance with \<open>debug\<close>
  and \<open>forceDelete\<close>, the one triggered condition puts two warnings into the
  diagnostics of that build, which were empty.
\<close>

theorem second_build_repeats_warning:
  "debug watch_options = Some True \<and>
   triggered watch_options = [FORCEDELETE_WARNING] \<and>
   \<not> isl (after_emit unix_env dist_build
            (plugin_after watch_options [(unix_env, dist_build, [])]) []) \<and>
   fst (snd (projr (after_emit unix_env dist_build
                     (plugin_after watch_options [(unix_env, dist_build, [])]) []))) =
     [FORCEDELETE_WARNING, FORCEDELETE_WARNING]"
  by (simp add: run_defs sample_defs)

end
